theory Spec2Isabelle
  imports Main "HOL-Library.Word"
begin

unbundle bit_operations_syntax

section \<open>THOR: data model (src/src/THOR.h)\<close>

text \<open>
  The engine is the C++ class \<open>THOR\<close> of \<^verbatim>\<open>src/src/THOR.h\<close> and
  \<^verbatim>\<open>src/src/THOR.cpp\<close>. Byte strings (\<^verbatim>\<open>std::vector<uint8_t>\<close>) are lists of
  8-bit words, node identifiers and sequence numbers are 32-bit words. The signed
  \<^verbatim>\<open>int\<close> values (rssi, the score) are only compared and shifted by constants of at
  most 300, so they never overflow and are mathematical integers here; \<^verbatim>\<open>time_t\<close>
  is an integer number of seconds.
\<close>

type_synonym u8 = "8 word"
type_synonym u32 = "32 word"

definition BROADCAST_ID :: u32 where
  "BROADCAST_ID = 0xFFFFFFFF"

text \<open>
  \<^verbatim>\<open>enum class THORPacketType : uint8_t { HELLO = 1, ACK = 2, DATA = 3 }\<close>. The field
  of that type is filled by \<^verbatim>\<open>memcpy\<close> from received bytes, so it can hold every
  value of its underlying type: it is a byte, with three named values.
\<close>

type_synonym THORPacketType = u8

definition HELLO :: THORPacketType where "HELLO = 1"
definition ACK :: THORPacketType where "ACK = 2"
definition DATA :: THORPacketType where "DATA = 3"

text \<open>
  \<^verbatim>\<open>struct flags\<close>: four bit-fields of one \<^verbatim>\<open>unsigned char\<close>, of widths 5, 1, 1
  and 1. Assigning to a field keeps the low bits of the value, which is what arithmetic
  on a word of that width does.
\<close>

record flags =
  ttl :: "5 word"
  intneighbour :: "1 word"
  visited :: "1 word"
  myInternet :: "1 word"

record Header =
  type :: THORPacketType
  flagsAndTTL :: flags
  destinationId :: u32
  senderId :: u32
  originId :: u32
  nextHopId :: u32
  sequence :: u32

record Packet =
  header :: Header
  payload :: "u8 list"

record NeighborInfo =
  lastSeen :: int
  rssi :: int
  hasInternetDirect :: bool
  hasInternetIndirect :: bool
  isVisited :: bool

text \<open>
  \<^verbatim>\<open>std::map<uint32_t, NeighborInfo> neighborTable\<close> is iterated in ascending key
  order by \<open>GetBestNextHop\<close>, and that order decides ties, so the table is the list of
  its entries in ascending key order. \<^verbatim>\<open>std::vector<Packet> packetQueue\<close> is a list.
\<close>

type_synonym NeighborTable = "(u32 \<times> NeighborInfo) list"

record THOR =
  neighborTable :: NeighborTable
  packetQueue :: "Packet list"

definition THOR_new :: THOR where
  "THOR_new = \<lparr> neighborTable = [], packetQueue = [] \<rparr>"

section \<open>Object representation of the packed header\<close>

text \<open>
  \<open>Serialize\<close> and \<open>Deserialize\<close> copy the 22 bytes of the packed \<open>Header\<close> object
  (\<^verbatim>\<open>#pragma pack(push, 1)\<close>, \<^verbatim>\<open>static_assert(sizeof(Header) == 22)\<close>). On the
  little-endian targets the library is built for, the first declared bit-field takes the
  least significant bits of its byte and a 32-bit integer is stored least significant
  byte first.
\<close>

definition flags_byte :: "flags \<Rightarrow> u8" where
  "flags_byte f =
     ucast (ttl f) OR push_bit 5 (ucast (intneighbour f))
       OR push_bit 6 (ucast (visited f)) OR push_bit 7 (ucast (myInternet f))"

definition byte_flags :: "u8 \<Rightarrow> flags" where
  "byte_flags b =
     \<lparr> ttl = ucast b, intneighbour = ucast (drop_bit 5 b),
       visited = ucast (drop_bit 6 b), myInternet = ucast (drop_bit 7 b) \<rparr>"

definition u32_bytes :: "u32 \<Rightarrow> u8 list" where
  "u32_bytes w = [ucast w, ucast (drop_bit 8 w), ucast (drop_bit 16 w), ucast (drop_bit 24 w)]"

definition bytes_u32 :: "u8 \<Rightarrow> u8 \<Rightarrow> u8 \<Rightarrow> u8 \<Rightarrow> u32" where
  "bytes_u32 b0 b1 b2 b3 =
     ucast b0 OR push_bit 8 (ucast b1) OR push_bit 16 (ucast b2) OR push_bit 24 (ucast b3)"

definition Header_bytes :: "Header \<Rightarrow> u8 list" where
  "Header_bytes h =
     [type h, flags_byte (flagsAndTTL h)]
       @ u32_bytes (destinationId h) @ u32_bytes (senderId h) @ u32_bytes (originId h)
       @ u32_bytes (nextHopId h) @ u32_bytes (sequence h)"

text \<open>Reading a header back from at least 22 bytes; callers check the length first.\<close>

definition bytes_Header :: "u8 list \<Rightarrow> Header" where
  "bytes_Header d =
     \<lparr> type = d ! 0,
       flagsAndTTL = byte_flags (d ! 1),
       destinationId = bytes_u32 (d ! 2) (d ! 3) (d ! 4) (d ! 5),
       senderId = bytes_u32 (d ! 6) (d ! 7) (d ! 8) (d ! 9),
       originId = bytes_u32 (d ! 10) (d ! 11) (d ! 12) (d ! 13),
       nextHopId = bytes_u32 (d ! 14) (d ! 15) (d ! 16) (d ! 17),
       sequence = bytes_u32 (d ! 18) (d ! 19) (d ! 20) (d ! 21) \<rparr>"

text \<open>\<^verbatim>\<open>Header header = {}\<close>: every field zero.\<close>

definition Header_zero :: Header where
  "Header_zero =
     \<lparr> type = 0,
       flagsAndTTL = \<lparr> ttl = 0, intneighbour = 0, visited = 0, myInternet = 0 \<rparr>,
       destinationId = 0, senderId = 0, originId = 0, nextHopId = 0, sequence = 0 \<rparr>"

section \<open>Wire codec (THOR.cpp, lines 7 to 52)\<close>

definition sizeof_Header :: nat where
  "sizeof_Header = 22"

definition Serialize :: "Packet \<Rightarrow> u8 list" where
  "Serialize packet = Header_bytes (header packet) @ payload packet"

definition SerializeHeader :: "Header \<Rightarrow> u8 list" where
  "SerializeHeader h = Header_bytes h"

text \<open>
  \<open>Deserialize\<close> returns \<^verbatim>\<open>false\<close> and leaves \<open>outPacket\<close> alone when the data is
  shorter than the header: \<open>None\<close>. Otherwise it returns \<^verbatim>\<open>true\<close> with the header
  copied from the first 22 bytes and the payload from the rest: \<open>Some\<close> of that packet.
  Nothing else is checked.
\<close>

definition Deserialize :: "u8 list \<Rightarrow> Packet option" where
  "Deserialize data =
     (if length data < sizeof_Header then None
      else Some \<lparr> header = bytes_Header data, payload = drop sizeof_Header data \<rparr>)"

definition DeserializeHeader :: "u8 list \<Rightarrow> Header option" where
  "DeserializeHeader data =
     (if length data < sizeof_Header then None else Some (bytes_Header data))"

section \<open>Beacons (THOR.cpp, lines 54 to 95)\<close>

definition CreateHello :: "u32 \<Rightarrow> u32 \<Rightarrow> u32 \<Rightarrow> u32 \<Rightarrow> u8 list" where
  "CreateHello DestId SenderId OriginId Sequence =
     SerializeHeader
       (Header_zero
          \<lparr> type := HELLO,
            flagsAndTTL := \<lparr> ttl = 1, intneighbour = 0, visited = 0, myInternet = 0 \<rparr>,
            destinationId := DestId, senderId := SenderId, originId := OriginId,
            nextHopId := BROADCAST_ID, sequence := Sequence \<rparr>)"

definition CreateACK :: "u32 \<Rightarrow> u32 \<Rightarrow> u32 \<Rightarrow> u32 \<Rightarrow> u32 \<Rightarrow> bool \<Rightarrow> bool \<Rightarrow> u8 list" where
  "CreateACK DestId SenderId OriginId NextHopId Sequence myinternet intneighbour' =
     SerializeHeader
       (Header_zero
          \<lparr> type := ACK,
            flagsAndTTL :=
              \<lparr> ttl = 1, intneighbour = (if intneighbour' then 1 else 0), visited = 0,
                myInternet = (if myinternet then 1 else 0) \<rparr>,
            destinationId := DestId, senderId := SenderId, originId := OriginId,
            nextHopId := NextHopId, sequence := Sequence \<rparr>)"

definition HandleHello :: "u8 list \<Rightarrow> Header option" where
  "HandleHello data = DeserializeHeader data"

definition HandleAck :: "u8 list \<Rightarrow> Header option" where
  "HandleAck data = DeserializeHeader data"

section \<open>Neighbor table (THOR.cpp, lines 179 to 204)\<close>

text \<open>
  \<open>nt_assign k v\<close> is what \<^verbatim>\<open>neighborTable[k] = v\<close> leaves: the entry of key \<open>k\<close>
  replaced, or inserted at its place in the ascending order. \<open>nt_at\<close> is the value
  \<^verbatim>\<open>neighborTable[k]\<close> refers to: the stored entry, or a value-initialised one when
  the key is new.
\<close>

fun nt_assign :: "u32 \<Rightarrow> NeighborInfo \<Rightarrow> NeighborTable \<Rightarrow> NeighborTable" where
  "nt_assign k v [] = [(k, v)]"
| "nt_assign k v ((k', v') # es) =
     (if k = k' then (k, v) # es
      else if k < k' then (k, v) # (k', v') # es
      else (k', v') # nt_assign k v es)"

definition NeighborInfo_zero :: NeighborInfo where
  "NeighborInfo_zero =
     \<lparr> lastSeen = 0, rssi = 0, hasInternetDirect = False, hasInternetIndirect = False,
       isVisited = False \<rparr>"

definition nt_at :: "NeighborTable \<Rightarrow> u32 \<Rightarrow> NeighborInfo" where
  "nt_at nt k = (case map_of nt k of Some info \<Rightarrow> info | None \<Rightarrow> NeighborInfo_zero)"

text \<open>\<^verbatim>\<open>neighborTable[bestHop].isVisited = true\<close>, as the three data-plane paths do.\<close>

definition mark_visited :: "u32 \<Rightarrow> NeighborTable \<Rightarrow> NeighborTable" where
  "mark_visited k nt = nt_assign k ((nt_at nt k)\<lparr> isVisited := True \<rparr>) nt"

text \<open>\<open>now\<close> is the value of \<^verbatim>\<open>std::time(nullptr)\<close> at the call.\<close>

definition NeighborStore :: "THOR \<Rightarrow> u32 \<Rightarrow> int \<Rightarrow> bool \<Rightarrow> bool \<Rightarrow> bool \<Rightarrow> int \<Rightarrow> THOR" where
  "NeighborStore st nodeId rssi' hasInternetDirect' hasInternetIndirect' isVisited' now =
     st \<lparr> neighborTable :=
            nt_assign nodeId
              ((nt_at (neighborTable st) nodeId)
                 \<lparr> lastSeen := now, rssi := rssi', hasInternetDirect := hasInternetDirect',
                   hasInternetIndirect := hasInternetIndirect', isVisited := isVisited' \<rparr>)
              (neighborTable st) \<rparr>"

definition RemoveOld :: "THOR \<Rightarrow> int \<Rightarrow> THOR" where
  "RemoveOld st now =
     st \<lparr> neighborTable := filter (\<lambda>(k, info). \<not> now - lastSeen info > 30) (neighborTable st) \<rparr>"

section \<open>Scorer (THOR.cpp, lines 206 to 251)\<close>

definition currentScore :: "NeighborInfo \<Rightarrow> int" where
  "currentScore info =
     (if hasInternetDirect info then 300
      else if hasInternetIndirect info then 200
      else if isVisited info then 10 else 100)
     + (if rssi info > -50 then -50
        else if rssi info \<le> -50 \<and> rssi info \<ge> -80 then 50
        else -20)"

text \<open>The loop over the table, on the pair of \<open>bestNodeId\<close> and \<open>maxScore\<close>.\<close>

fun best_loop :: "NeighborTable \<Rightarrow> u32 \<times> int \<Rightarrow> u32 \<times> int" where
  "best_loop [] acc = acc"
| "best_loop ((k, info) # es) (bestNodeId, maxScore) =
     (if currentScore info > maxScore then best_loop es (k, currentScore info)
      else best_loop es (bestNodeId, maxScore))"

definition GetBestNextHop :: "NeighborTable \<Rightarrow> u32" where
  "GetBestNextHop nt =
     (if nt = [] then 0
      else case best_loop nt (0, -1) of
             (bestNodeId, maxScore) \<Rightarrow> if maxScore = -1 then 0 else bestNodeId)"

section \<open>Data plane (THOR.cpp, lines 97 to 177 and 254 to 290)\<close>

definition set_route :: "u32 \<Rightarrow> Packet \<Rightarrow> Packet" where
  "set_route bestHop p =
     p \<lparr> header := (header p)
            \<lparr> nextHopId := bestHop,
              flagsAndTTL := (flagsAndTTL (header p)) \<lparr> visited := 1 \<rparr> \<rparr> \<rparr>"

definition dec_ttl :: "Packet \<Rightarrow> Packet" where
  "dec_ttl p =
     p \<lparr> header := (header p)
            \<lparr> flagsAndTTL := (flagsAndTTL (header p))
                 \<lparr> ttl := ttl (flagsAndTTL (header p)) - 1 \<rparr> \<rparr> \<rparr>"

text \<open>\<^verbatim>\<open>if (packetQueue.size() < 50) packetQueue.push_back(packet)\<close>.\<close>

definition enqueue :: "Packet \<Rightarrow> THOR \<Rightarrow> THOR" where
  "enqueue p st =
     (if length (packetQueue st) < 50 then st \<lparr> packetQueue := packetQueue st @ [p] \<rparr> else st)"

definition SendPacket :: "THOR \<Rightarrow> u32 \<Rightarrow> u32 \<Rightarrow> u32 \<Rightarrow> u32 \<Rightarrow> u8 list \<Rightarrow> u8 list \<times> THOR" where
  "SendPacket st DestId SenderId OriginId Sequence payload' =
     (let hdr = Header_zero
            \<lparr> type := DATA,
              flagsAndTTL := (flagsAndTTL Header_zero) \<lparr> ttl := 15, visited := 0 \<rparr>,
              destinationId := DestId, senderId := SenderId, originId := OriginId,
              nextHopId := 0, sequence := Sequence \<rparr>;
          packet = \<lparr> header = hdr, payload = payload' \<rparr>;
          bestHop = GetBestNextHop (neighborTable st)
      in if bestHop \<noteq> 0
         then (Serialize (set_route bestHop packet),
               st \<lparr> neighborTable := mark_visited bestHop (neighborTable st) \<rparr>)
         else ([], enqueue packet st))"

text \<open>
  \<open>HandleData\<close> writes the decoded packet to the caller's \<open>outPacket\<close>: the function
  takes the caller's value and returns the bytes, the value of \<open>outPacket\<close> at return
  and the engine.
\<close>

definition HandleData :: "THOR \<Rightarrow> u8 list \<Rightarrow> Packet \<Rightarrow> u32 \<Rightarrow> u8 list \<times> Packet \<times> THOR" where
  "HandleData st data outPacket MyNodeId =
     (case Deserialize data of
        None \<Rightarrow> ([], outPacket, st)
      | Some pkt \<Rightarrow>
          if ttl (flagsAndTTL (header pkt)) \<le> 1 then ([], pkt, st)
          else if destinationId (header pkt) = MyNodeId then ([], pkt, st)
          else
            let pkt1 = dec_ttl pkt;
                bestHop = GetBestNextHop (neighborTable st)
            in if bestHop \<noteq> 0
               then (Serialize (set_route bestHop pkt1), set_route bestHop pkt1,
                     st \<lparr> neighborTable := mark_visited bestHop (neighborTable st) \<rparr>)
               else ([], pkt1, enqueue pkt1 st))"

definition ProcessQueue :: "THOR \<Rightarrow> u8 list list \<times> THOR" where
  "ProcessQueue st =
     (if packetQueue st = [] then ([], st)
      else
        let bestHop = GetBestNextHop (neighborTable st)
        in if bestHop = 0 then ([], st)
           else (map (\<lambda>packet. Serialize (set_route bestHop packet)) (packetQueue st),
                 st \<lparr> neighborTable := mark_visited bestHop (neighborTable st),
                      packetQueue := [] \<rparr>))"

section \<open>Sequences of calls on one engine\<close>

text \<open>
  The host drives an engine through its public methods. A \<open>call\<close> is one invocation of
  a method that can touch the engine's state, with its arguments (and the clock reading
  for the two methods that read the clock); \<open>run\<close> performs a sequence of calls.
\<close>

datatype call =
    Call_SendPacket u32 u32 u32 u32 "u8 list"
  | Call_HandleData "u8 list" Packet u32
  | Call_NeighborStore u32 int bool bool bool int
  | Call_RemoveOld int
  | Call_GetBestNextHop
  | Call_ProcessQueue

fun step :: "THOR \<Rightarrow> call \<Rightarrow> THOR" where
  "step st (Call_SendPacket d s orig q pl) = snd (SendPacket st d s orig q pl)"
| "step st (Call_HandleData data outPacket my) = snd (snd (HandleData st data outPacket my))"
| "step st (Call_NeighborStore k r d i v now) = NeighborStore st k r d i v now"
| "step st (Call_RemoveOld now) = RemoveOld st now"
| "step st Call_GetBestNextHop = st"
| "step st Call_ProcessQueue = snd (ProcessQueue st)"

definition run :: "call list \<Rightarrow> THOR \<Rightarrow> THOR" where
  "run calls st = foldl step st calls"

section \<open>Predicates and concrete inputs used in the statements\<close>

text \<open>A packet whose type tag is one of the three named values.\<close>

definition well_formed :: "Packet \<Rightarrow> bool" where
  "well_formed p \<longleftrightarrow> type (header p) \<in> {HELLO, ACK, DATA}"

text \<open>
  The DATA frame that node 1 sends to node 2 for destination 9999 with payload
  \<^verbatim>\<open>"Help Me"\<close> (the frame of the example simulation), and the packet it carries.
\<close>

definition frame_S2 :: "u8 list" where
  "frame_S2 = [3, 79, 15, 39, 0, 0, 1, 0, 0, 0, 1, 0, 0, 0, 2, 0, 0, 0, 1, 0, 0, 0,
     72, 101, 108, 112, 32, 77, 101]"

definition packet_S2 :: Packet where
  "packet_S2 =
     \<lparr> header =
         \<lparr> type = 3,
           flagsAndTTL = \<lparr> ttl = 15, intneighbour = 0, visited = 1, myInternet = 0 \<rparr>,
           destinationId = 9999, senderId = 1, originId = 1, nextHopId = 2, sequence = 1 \<rparr>,
       payload = [72, 101, 108, 112, 32, 77, 101] \<rparr>"

text \<open>That packet as node 2 holds it after decrementing the ttl.\<close>

definition packet_S2_queued :: Packet where
  "packet_S2_queued =
     \<lparr> header =
         \<lparr> type = 3,
           flagsAndTTL = \<lparr> ttl = 14, intneighbour = 0, visited = 1, myInternet = 0 \<rparr>,
           destinationId = 9999, senderId = 1, originId = 1, nextHopId = 2, sequence = 1 \<rparr>,
       payload = [72, 101, 108, 112, 32, 77, 101] \<rparr>"


text \<open>A neighbor with indirect internet in the ideal RSSI band, as in the simulation.\<close>

definition indirect_B :: NeighborInfo where
  "indirect_B =
     \<lparr> lastSeen = 100, rssi = -65, hasInternetDirect = False, hasInternetIndirect = True,
       isVisited = False \<rparr>"

text \<open>The order \<^verbatim>\<open>std::map\<close> keeps: keys strictly ascending, so no key twice.\<close>

definition nt_sorted :: "NeighborTable \<Rightarrow> bool" where
  "nt_sorted nt \<longleftrightarrow> sorted_wrt (<) (map fst nt)"

text \<open>A packet that names no next hop and is not marked visited.\<close>

definition unrouted :: "Packet \<Rightarrow> bool" where
  "unrouted p \<longleftrightarrow> nextHopId (header p) = 0 \<and> visited (flagsAndTTL (header p)) = 0"

fun is_HandleData :: "call \<Rightarrow> bool" where
  "is_HandleData (Call_HandleData data outPacket my) = True"
| "is_HandleData c = False"

text \<open>The packet \<open>SendPacket\<close> builds before it asks the scorer.\<close>

definition fresh_DATA :: "u32 \<Rightarrow> u32 \<Rightarrow> u32 \<Rightarrow> u32 \<Rightarrow> u8 list \<Rightarrow> Packet" where
  "fresh_DATA d s orig q pl =
     \<lparr> header =
         \<lparr> type = DATA,
           flagsAndTTL = \<lparr> ttl = 15, intneighbour = 0, visited = 0, myInternet = 0 \<rparr>,
           destinationId = d, senderId = s, originId = orig, nextHopId = 0, sequence = q \<rparr>,
       payload = pl \<rparr>"

text \<open>The payload \<^verbatim>\<open>"Help Me"\<close> of the simulation.\<close>

definition helpme :: "u8 list" where
  "helpme = [72, 101, 108, 112, 32, 77, 101]"

text \<open>A DATA frame whose ttl is 1, and the packet it carries.\<close>

definition frame_ttl1 :: "u8 list" where
  "frame_ttl1 = [3, 65, 15, 39, 0, 0, 1, 0, 0, 0, 1, 0, 0, 0, 2, 0, 0, 0, 1, 0, 0, 0, 72, 105]"

definition packet_ttl1 :: Packet where
  "packet_ttl1 =
     \<lparr> header =
         \<lparr> type = 3,
           flagsAndTTL = \<lparr> ttl = 1, intneighbour = 0, visited = 1, myInternet = 0 \<rparr>,
           destinationId = 9999, senderId = 1, originId = 1, nextHopId = 2, sequence = 1 \<rparr>,
       payload = [72, 105] \<rparr>"

text \<open>Node 2 of the simulation: one neighbor, the gateway 3, with direct internet.\<close>

definition engine_B :: THOR where
  "engine_B = NeighborStore THOR_new 3 (-72) True False False 100"

text \<open>An engine with no neighbor after fifty calls of \<open>SendPacket\<close>.\<close>

definition full_engine :: THOR where
  "full_engine = run (replicate 50 (Call_SendPacket 9999 1 1 1 helpme)) THOR_new"

text \<open>An engine that queued two packets and then learned of neighbor 2.\<close>

definition queued_engine :: THOR where
  "queued_engine =
     NeighborStore
       (snd (SendPacket (snd (SendPacket THOR_new 9999 1 1 1 helpme)) 9999 1 1 2 [72, 105]))
       2 (-65) False True False 100"

text \<open>Two table entries: a gateway in the ideal RSSI band, and an unexplored neighbor.\<close>

definition direct_0 :: NeighborInfo where
  "direct_0 =
     \<lparr> lastSeen = 2, rssi = -60, hasInternetDirect = True, hasInternetIndirect = False,
       isVisited = False \<rparr>"

definition explore_7 :: NeighborInfo where
  "explore_7 =
     \<lparr> lastSeen = 1, rssi = -60, hasInternetDirect = False, hasInternetIndirect = False,
       isVisited = False \<rparr>"

text \<open>An engine whose host stored node id 0 (direct internet) beside node 7.\<close>

definition zero_table :: THOR where
  "zero_table =
     NeighborStore (NeighborStore THOR_new 7 (-60) False False False 1) 0 (-60) True False False 2"

section \<open>The object representation is a bijection\<close>

lemma byte_flags_inverse: "flags_byte (byte_flags b) = b"
proof (rule bit_word_eqI)
  fix n assume "n < LENGTH(8)"
  then consider "n < 5" | "n = 5" | "n = 6" | "n = 7"
    by fastforce
  then show "bit (flags_byte (byte_flags b)) n = bit b n"
    by cases (simp_all add: flags_byte_def byte_flags_def bit_simps)
qed

lemma flags_byte_ttl: "ucast (flags_byte f) = ttl f"
  by (rule bit_word_eqI) (auto simp: flags_byte_def bit_simps dest: bit_imp_le_length)

lemma flags_byte_intneighbour: "ucast (drop_bit 5 (flags_byte f)) = intneighbour f"
  by (rule bit_word_eqI) (auto simp: flags_byte_def bit_simps dest: bit_imp_le_length)

lemma flags_byte_visited: "ucast (drop_bit 6 (flags_byte f)) = visited f"
  by (rule bit_word_eqI) (auto simp: flags_byte_def bit_simps dest: bit_imp_le_length)

lemma flags_byte_myInternet: "ucast (drop_bit 7 (flags_byte f)) = myInternet f"
  by (rule bit_word_eqI) (auto simp: flags_byte_def bit_simps dest: bit_imp_le_length)

lemma flags_byte_inverse: "byte_flags (flags_byte f) = f"
  by (simp add: byte_flags_def flags_byte_ttl flags_byte_intneighbour flags_byte_visited
      flags_byte_myInternet)

lemma bytes_u32_inverse:
  "bytes_u32 (ucast w) (ucast (drop_bit 8 w)) (ucast (drop_bit 16 w)) (ucast (drop_bit 24 w)) = w"
proof (rule bit_word_eqI)
  fix n assume "n < LENGTH(32)"
  then consider "n < 8" | "8 \<le> n" "n < 16" | "16 \<le> n" "n < 24" | "24 \<le> n" "n < 32"
    by fastforce
  then show "bit (bytes_u32 (ucast w) (ucast (drop_bit 8 w)) (ucast (drop_bit 16 w))
      (ucast (drop_bit 24 w))) n = bit w n"
    by cases (auto simp: bytes_u32_def bit_simps)
qed

lemma u32_bytes_inverse: "u32_bytes (bytes_u32 a b c d) = [a, b, c, d]"
proof -
  have "ucast (bytes_u32 a b c d) = a"
    by (rule bit_word_eqI) (auto simp: bytes_u32_def bit_simps dest: bit_imp_le_length)
  moreover have "ucast (drop_bit 8 (bytes_u32 a b c d)) = b"
    by (rule bit_word_eqI) (auto simp: bytes_u32_def bit_simps dest: bit_imp_le_length)
  moreover have "ucast (drop_bit 16 (bytes_u32 a b c d)) = c"
    by (rule bit_word_eqI) (auto simp: bytes_u32_def bit_simps dest: bit_imp_le_length)
  moreover have "ucast (drop_bit 24 (bytes_u32 a b c d)) = d"
    by (rule bit_word_eqI) (auto simp: bytes_u32_def bit_simps dest: bit_imp_le_length)
  ultimately show ?thesis
    by (simp add: u32_bytes_def)
qed

lemma length_Header_bytes: "length (Header_bytes h) = 22"
  by (simp add: Header_bytes_def u32_bytes_def)

lemma bytes_Header_inverse: "bytes_Header (Header_bytes h @ pl) = h"
  by (simp add: bytes_Header_def Header_bytes_def u32_bytes_def flags_byte_inverse
      bytes_u32_inverse)

lemma list_22:
  assumes "length xs = 22"
  shows "xs = [xs ! 0, xs ! 1, xs ! 2, xs ! 3, xs ! 4, xs ! 5, xs ! 6, xs ! 7, xs ! 8, xs ! 9,
    xs ! 10, xs ! 11, xs ! 12, xs ! 13, xs ! 14, xs ! 15, xs ! 16, xs ! 17, xs ! 18, xs ! 19,
    xs ! 20, xs ! 21]"
  using assms by (auto simp: numeral_eq_Suc length_Suc_conv)

lemma take_22:
  assumes "22 \<le> length d"
  shows "take 22 d = [d ! 0, d ! 1, d ! 2, d ! 3, d ! 4, d ! 5, d ! 6, d ! 7, d ! 8, d ! 9,
    d ! 10, d ! 11, d ! 12, d ! 13, d ! 14, d ! 15, d ! 16, d ! 17, d ! 18, d ! 19, d ! 20,
    d ! 21]"
proof -
  have "length (take 22 d) = 22"
    using assms by simp
  from list_22 [OF this] show ?thesis
    by simp
qed

lemma Header_bytes_inverse:
  assumes "22 \<le> length d"
  shows "Header_bytes (bytes_Header d) = take 22 d"
  by (simp add: take_22 [OF assms] Header_bytes_def bytes_Header_def byte_flags_inverse
      u32_bytes_inverse)


lemma Serialize_Deserialize:
  assumes "Deserialize x = Some p"
  shows "Serialize p = x"
proof -
  from assms have len: "22 \<le> length x"
    and p: "p = \<lparr> header = bytes_Header x, payload = drop 22 x \<rparr>"
    by (auto simp: Deserialize_def sizeof_Header_def split: if_splits)
  have "Serialize p = take 22 x @ drop 22 x"
    by (simp add: p Serialize_def Header_bytes_inverse [OF len])
  then show ?thesis
    by simp
qed

lemma Deserialize_Serialize: "Deserialize (Serialize p) = Some p"
  by (simp add: Deserialize_def Serialize_def sizeof_Header_def length_Header_bytes
      bytes_Header_inverse)

lemma Deserialize_None_iff: "Deserialize data = None \<longleftrightarrow> length data < 22"
  by (simp add: Deserialize_def sizeof_Header_def)

lemma Deserialize_frame_S2: "Deserialize frame_S2 = Some packet_S2"
  by (simp add: Deserialize_def sizeof_Header_def frame_S2_def packet_S2_def bytes_Header_def
      byte_flags_def bytes_u32_def)

section \<open>What the scorer returns\<close>

lemma best_loop_mono: "best_loop es (b, m) = (b', m') \<Longrightarrow> m \<le> m'"
proof (induction es arbitrary: b m)
  case Nil
  then show ?case by simp
next
  case (Cons e es)
  obtain k info where e: "e = (k, info)" by (cases e)
  show ?case
  proof (cases "currentScore info > m")
    case True
    with Cons.prems e have "best_loop es (k, currentScore info) = (b', m')" by simp
    from Cons.IH [OF this] True show ?thesis by simp
  next
    case False
    with Cons.prems e have "best_loop es (b, m) = (b', m')" by simp
    from Cons.IH [OF this] show ?thesis .
  qed
qed

lemma best_loop_upper:
  "best_loop es (b, m) = (b', m') \<Longrightarrow> (k, info) \<in> set es \<Longrightarrow> currentScore info \<le> m'"
proof (induction es arbitrary: b m)
  case Nil
  then show ?case by simp
next
  case (Cons e es)
  obtain k0 i0 where e: "e = (k0, i0)" by (cases e)
  let ?acc = "if currentScore i0 > m then (k0, currentScore i0) else (b, m)"
  from Cons.prems(1) e have run: "best_loop es ?acc = (b', m')"
    by (simp split: if_splits)
  show ?case
  proof (cases "(k, info) = (k0, i0)")
    case True
    have "currentScore i0 \<le> snd ?acc" by simp
    moreover have "snd ?acc \<le> m'"
      using run best_loop_mono [of es "fst ?acc" "snd ?acc" b' m'] by simp
    ultimately show ?thesis using True by simp
  next
    case False
    with Cons.prems(2) e have "(k, info) \<in> set es" by auto
    with run Cons.IH [of "fst ?acc" "snd ?acc"] show ?thesis by simp
  qed
qed

lemma best_loop_choice:
  "best_loop es (b, m) = (b', m') \<Longrightarrow>
     (b', m') = (b, m) \<or> (\<exists>info. (b', info) \<in> set es \<and> currentScore info = m' \<and> m < m')"
proof (induction es arbitrary: b m)
  case Nil
  then show ?case by simp
next
  case (Cons e es)
  obtain k0 i0 where e: "e = (k0, i0)" by (cases e)
  show ?case
  proof (cases "currentScore i0 > m")
    case True
    with Cons.prems e have run: "best_loop es (k0, currentScore i0) = (b', m')" by simp
    from Cons.IH [OF run] True e show ?thesis by auto
  next
    case False
    with Cons.prems e have run: "best_loop es (b, m) = (b', m')" by simp
    from Cons.IH [OF run] e show ?thesis by auto
  qed
qed

lemma GetBestNextHop_cases:
  "GetBestNextHop nt = 0 \<or>
   (\<exists>info. (GetBestNextHop nt, info) \<in> set nt \<and> 0 \<le> currentScore info \<and>
      (\<forall>(k, i) \<in> set nt. currentScore i \<le> currentScore info))"
proof (cases "nt = []")
  case True
  then show ?thesis by (simp add: GetBestNextHop_def)
next
  case False
  obtain b' m' where run: "best_loop nt (0, -1) = (b', m')" by (cases "best_loop nt (0, -1)")
  show ?thesis
  proof (cases "m' = -1")
    case True
    with run False show ?thesis by (simp add: GetBestNextHop_def)
  next
    case m': False
    with run False have hop: "GetBestNextHop nt = b'" by (simp add: GetBestNextHop_def)
    from best_loop_choice [OF run] m' obtain info
      where "(b', info) \<in> set nt" "currentScore info = m'" "-1 < m'" by auto
    moreover have "\<forall>(k, i) \<in> set nt. currentScore i \<le> m'"
      using best_loop_upper [OF run] by auto
    ultimately show ?thesis using hop by auto
  qed
qed



lemma GetBestNextHop_nonzero_in_table:
  "GetBestNextHop nt \<noteq> 0 \<Longrightarrow> GetBestNextHop nt \<in> fst ` set nt"
  using GetBestNextHop_cases [of nt] by force

section \<open>Claims about the wire codec\<close>

text \<open>
  Claim C6. The wire codec round-trips: every byte string \<open>x\<close> of at least 22 bytes
  whose first byte is a valid type (1, 2 or 3) decodes to a packet whose encoding is \<open>x\<close>
  again, and decoding the encoding of a well-formed packet \<open>p\<close> gives \<open>p\<close>.
\<close>

theorem codec_round_trip:
  "(22 \<le> length x \<and> x ! 0 \<in> {1, 2, 3} \<longrightarrow>
      (\<exists>p. Deserialize x = Some p \<and> Serialize p = x)) \<and>
   (well_formed p \<longrightarrow> Deserialize (Serialize p) = Some p)"
proof (intro conjI impI)
  assume "22 \<le> length x \<and> x ! 0 \<in> {1, 2, 3}"
  then obtain q where "Deserialize x = Some q"
    by (auto simp: Deserialize_def sizeof_Header_def)
  then show "\<exists>p. Deserialize x = Some p \<and> Serialize p = x"
    by (auto dest: Serialize_Deserialize)
next
  show "Deserialize (Serialize p) = Some p"
    by (rule Deserialize_Serialize)
qed

theorem codec_round_trip_witness:
  "22 \<le> length frame_S2 \<and> frame_S2 ! 0 \<in> {1, 2, 3} \<and>
   Deserialize frame_S2 = Some packet_S2 \<and> Serialize packet_S2 = frame_S2 \<and>
   well_formed packet_S2 \<and> Deserialize (Serialize packet_S2) = Some packet_S2"
proof -
  have a: "22 \<le> length frame_S2 \<and> frame_S2 ! 0 \<in> {1, 2, 3}"
    by (simp add: frame_S2_def)
  have b: "well_formed packet_S2"
    by (simp add: well_formed_def packet_S2_def HELLO_def ACK_def DATA_def)
  from codec_round_trip [of frame_S2 packet_S2] a b Deserialize_frame_S2
  show ?thesis
    by auto
qed

text \<open>
  Claim C2, as amended. Decoding (\<open>Deserialize\<close> and \<open>DeserializeHeader\<close>) fails exactly
  when the byte string is shorter than 22 bytes. The type byte is not looked at: a string
  of 22 bytes or more decodes whatever its first byte is.
\<close>

theorem Deserialize_fails_iff_short:
  "(Deserialize data = None \<longleftrightarrow> length data < 22) \<and>
   (DeserializeHeader data = None \<longleftrightarrow> length data < 22)"
  by (simp add: Deserialize_def DeserializeHeader_def sizeof_Header_def)

text \<open>
  The claim as written fails on 22 zero bytes: the type byte 0 is none of 1, 2, 3, and
  both decoders succeed.
\<close>

theorem Deserialize_unknown_type_counterexample:
  "replicate 22 (0::u8) ! 0 \<notin> {1, 2, 3} \<and>
   Deserialize (replicate 22 0) \<noteq> None \<and> DeserializeHeader (replicate 22 0) \<noteq> None"
  by (simp add: Deserialize_def DeserializeHeader_def sizeof_Header_def)

section \<open>Claims about the scorer\<close>




section \<open>Neighbor table, data plane and call sequences: auxiliary facts\<close>

lemma map_of_nt_assign: "map_of (nt_assign k v nt) = (map_of nt)(k \<mapsto> v)"
  by (induction nt) (auto simp: fun_upd_twist)

lemma set_nt_assign: "fst ` set (nt_assign k v nt) = insert k (fst ` set nt)"
proof -
  have "dom (map_of (nt_assign k v nt)) = insert k (dom (map_of nt))"
    by (simp add: map_of_nt_assign)
  then show ?thesis
    by (simp add: dom_map_of_conv_image_fst)
qed

lemma nt_sorted_assign: "nt_sorted nt \<Longrightarrow> nt_sorted (nt_assign k v nt)"
proof (induction nt)
  case Nil
  then show ?case by (simp add: nt_sorted_def)
next
  case (Cons e es)
  obtain k' v' where e: "e = (k', v')" by (cases e)
  from Cons.prems have tl: "nt_sorted es" and hd: "\<forall>x \<in> fst ` set es. k' < x"
    by (auto simp: nt_sorted_def e)
  from Cons.IH [OF tl] have ih: "nt_sorted (nt_assign k v es)" .
  consider "k = k'" | "k < k'" | "k' < k" by fastforce
  then show ?case
  proof cases
    case 1
    with Cons.prems e show ?thesis by (simp add: nt_sorted_def)
  next
    case 2
    with Cons.prems e show ?thesis by (auto simp: nt_sorted_def)
  next
    case 3
    then have "\<forall>x \<in> fst ` set (nt_assign k v es). k' < x"
      using hd by (simp add: set_nt_assign)
    with 3 ih e show ?thesis by (auto simp: nt_sorted_def)
  qed
qed

lemma nt_sorted_filter: "nt_sorted nt \<Longrightarrow> nt_sorted (filter P nt)"
  unfolding nt_sorted_def by (induction nt) auto

lemma map_of_mark_visited:
  "map_of (mark_visited k nt) = (map_of nt)(k \<mapsto> (nt_at nt k)\<lparr>isVisited := True\<rparr>)"
  by (simp add: mark_visited_def map_of_nt_assign)

lemma nt_at_Some: "map_of nt k = Some info \<Longrightarrow> nt_at nt k = info"
  by (simp add: nt_at_def)

lemma in_table_map_of: "k \<in> fst ` set nt \<Longrightarrow> \<exists>info. map_of nt k = Some info"
  by (cases "map_of nt k") (auto simp: map_of_eq_None_iff)

lemma NeighborStore_table:
  "map_of (neighborTable (NeighborStore st nodeId r d i v now)) =
     (map_of (neighborTable st))
       (nodeId \<mapsto> \<lparr> lastSeen = now, rssi = r, hasInternetDirect = d, hasInternetIndirect = i,
          isVisited = v \<rparr>)"
proof -
  obtain t0 r0 d0 i0 v0 where "nt_at (neighborTable st) nodeId =
      \<lparr> lastSeen = t0, rssi = r0, hasInternetDirect = d0, hasInternetIndirect = i0,
        isVisited = v0 \<rparr>"
    by (cases "nt_at (neighborTable st) nodeId") simp
  then show ?thesis
    by (simp add: NeighborStore_def map_of_nt_assign)
qed

lemma NeighborStore_queue: "packetQueue (NeighborStore st nodeId r d i v now) = packetQueue st"
  by (simp add: NeighborStore_def)

lemma Deserialize_frame_ttl1: "Deserialize frame_ttl1 = Some packet_ttl1"
  by (simp add: Deserialize_def sizeof_Header_def frame_ttl1_def packet_ttl1_def bytes_Header_def
      byte_flags_def bytes_u32_def)

lemma GetBestNextHop_engine_B: "GetBestNextHop (neighborTable engine_B) = 3"
  by (simp add: engine_B_def NeighborStore_def THOR_new_def nt_at_def NeighborInfo_zero_def
      GetBestNextHop_def currentScore_def)

lemma HandleData_routed:
  assumes "Deserialize data = Some p"
    and "1 < ttl (flagsAndTTL (header p))"
    and "destinationId (header p) \<noteq> MyNodeId"
    and "GetBestNextHop (neighborTable st) \<noteq> 0"
  shows "HandleData st data outPacket MyNodeId =
    (Serialize (set_route (GetBestNextHop (neighborTable st)) (dec_ttl p)),
     set_route (GetBestNextHop (neighborTable st)) (dec_ttl p),
     st \<lparr> neighborTable := mark_visited (GetBestNextHop (neighborTable st)) (neighborTable st) \<rparr>)"
  using assms by (simp add: HandleData_def Let_def not_le [symmetric])

lemma HandleData_no_route:
  assumes "Deserialize data = Some p"
    and "1 < ttl (flagsAndTTL (header p))"
    and "destinationId (header p) \<noteq> MyNodeId"
    and "GetBestNextHop (neighborTable st) = 0"
  shows "HandleData st data outPacket MyNodeId = ([], dec_ttl p, enqueue (dec_ttl p) st)"
  using assms by (simp add: HandleData_def Let_def not_le [symmetric])

lemma HandleData_dropped:
  assumes "Deserialize data = Some p"
    and "ttl (flagsAndTTL (header p)) \<le> 1 \<or> destinationId (header p) = MyNodeId"
  shows "HandleData st data outPacket MyNodeId = ([], p, st)"
  using assms by (auto simp: HandleData_def)

lemma HandleData_undecodable:
  assumes "Deserialize data = None"
  shows "HandleData st data outPacket MyNodeId = ([], outPacket, st)"
  using assms by (simp add: HandleData_def)

lemma unat_ttl_dec:
  fixes t :: "5 word"
  assumes "1 < t"
  shows "unat (t - 1) + 1 = unat t"
proof -
  from assms have "t \<noteq> 0" by auto
  then show ?thesis
    by (simp add: unat_minus_one unat_gt_0 Suc_leI)
qed

lemma SendPacket_no_route:
  assumes "GetBestNextHop (neighborTable st) = 0"
  shows "SendPacket st d s orig q pl = ([], enqueue (fresh_DATA d s orig q pl) st)"
  using assms by (simp add: SendPacket_def Let_def fresh_DATA_def Header_zero_def DATA_def)

lemma SendPacket_routed:
  assumes "GetBestNextHop (neighborTable st) \<noteq> 0"
  shows "SendPacket st d s orig q pl =
    (Serialize (set_route (GetBestNextHop (neighborTable st)) (fresh_DATA d s orig q pl)),
     st \<lparr> neighborTable := mark_visited (GetBestNextHop (neighborTable st)) (neighborTable st) \<rparr>)"
  using assms by (simp add: SendPacket_def Let_def fresh_DATA_def Header_zero_def DATA_def)

lemma enqueue_full: "50 \<le> length (packetQueue st) \<Longrightarrow> enqueue p st = st"
  by (simp add: enqueue_def)

lemma enqueue_room:
  "length (packetQueue st) < 50 \<Longrightarrow> enqueue p st = st \<lparr> packetQueue := packetQueue st @ [p] \<rparr>"
  by (simp add: enqueue_def)

lemma length_enqueue:
  "length (packetQueue st) \<le> 50 \<Longrightarrow> length (packetQueue (enqueue p st)) \<le> 50"
  by (simp add: enqueue_def)

lemma neighborTable_enqueue: "neighborTable (enqueue p st) = neighborTable st"
  by (simp add: enqueue_def)

lemma packetQueue_SendPacket:
  "packetQueue (snd (SendPacket st d s orig q pl)) =
     (if GetBestNextHop (neighborTable st) = 0
      then packetQueue (enqueue (fresh_DATA d s orig q pl) st) else packetQueue st)"
  by (simp add: SendPacket_no_route SendPacket_routed)

lemma packetQueue_HandleData:
  "packetQueue (snd (snd (HandleData st data outPacket my))) = packetQueue st \<or>
   (\<exists>p. Deserialize data = Some p \<and> GetBestNextHop (neighborTable st) = 0 \<and>
      packetQueue (snd (snd (HandleData st data outPacket my))) =
        packetQueue (enqueue (dec_ttl p) st))"
  by (auto simp: HandleData_def Let_def split: option.splits)

lemma packetQueue_ProcessQueue:
  "packetQueue (snd (ProcessQueue st)) = packetQueue st \<or> packetQueue (snd (ProcessQueue st)) = []"
  by (simp add: ProcessQueue_def Let_def)

lemma packetQueue_RemoveOld: "packetQueue (RemoveOld st now) = packetQueue st"
  by (simp add: RemoveOld_def)

lemma step_bounded:
  assumes "length (packetQueue st) \<le> 50"
  shows "length (packetQueue (step st c)) \<le> 50"
proof (cases c)
  case (Call_SendPacket d s orig q pl)
  with assms show ?thesis
    by (simp add: packetQueue_SendPacket length_enqueue)
next
  case (Call_HandleData data outPacket my)
  with assms packetQueue_HandleData [of st data outPacket my] show ?thesis
    by (auto simp: length_enqueue)
next
  case (Call_NeighborStore k r d i v now)
  with assms show ?thesis by (simp add: NeighborStore_queue)
next
  case (Call_RemoveOld now)
  with assms show ?thesis by (simp add: packetQueue_RemoveOld)
next
  case Call_GetBestNextHop
  with assms show ?thesis by simp
next
  case Call_ProcessQueue
  with assms packetQueue_ProcessQueue [of st] show ?thesis by auto
qed

lemma run_bounded:
  "length (packetQueue st) \<le> 50 \<Longrightarrow> length (packetQueue (run calls st)) \<le> 50"
  unfolding run_def by (induction calls arbitrary: st) (simp_all add: step_bounded)

lemma run_snoc: "run (calls @ [c]) st = step (run calls st) c"
  by (simp add: run_def)

lemma run_fill:
  "n \<le> 50 \<Longrightarrow>
   run (replicate n (Call_SendPacket d s orig q pl)) THOR_new =
     \<lparr> neighborTable = [], packetQueue = replicate n (fresh_DATA d s orig q pl) \<rparr>"
proof (induction n)
  case 0
  then show ?case by (simp add: run_def THOR_new_def)
next
  case (Suc n)
  let ?c = "Call_SendPacket d s orig q pl"
  let ?st = "\<lparr> neighborTable = [], packetQueue = replicate n (fresh_DATA d s orig q pl) \<rparr>"
  from Suc have st: "run (replicate n ?c) THOR_new = ?st" by simp
  have "replicate (Suc n) ?c = replicate n ?c @ [?c]"
    by (simp add: replicate_append_same)
  then have "run (replicate (Suc n) ?c) THOR_new = step ?st ?c"
    by (simp only: run_snoc st)
  also have "\<dots> = enqueue (fresh_DATA d s orig q pl) ?st"
    by (simp add: SendPacket_no_route GetBestNextHop_def)
  also have "\<dots> = \<lparr> neighborTable = [],
      packetQueue = replicate (Suc n) (fresh_DATA d s orig q pl) \<rparr>"
    using Suc.prems by (simp add: enqueue_def replicate_append_same)
  finally show ?case .
qed

lemma full_engine_eq:
  "full_engine = \<lparr> neighborTable = [], packetQueue = replicate 50 (fresh_DATA 9999 1 1 1 helpme) \<rparr>"
  unfolding full_engine_def by (rule run_fill) simp

lemma queued_engine_eq:
  "queued_engine =
     \<lparr> neighborTable = [(2, indirect_B)],
       packetQueue = [fresh_DATA 9999 1 1 1 helpme, fresh_DATA 9999 1 1 2 [72, 105]] \<rparr>"
  by (simp add: queued_engine_def SendPacket_no_route GetBestNextHop_def THOR_new_def
      enqueue_def NeighborStore_def nt_at_def NeighborInfo_zero_def indirect_B_def)

lemma ProcessQueue_idle:
  assumes "packetQueue st = [] \<or> GetBestNextHop (neighborTable st) = 0"
  shows "ProcessQueue st = ([], st)"
  using assms by (auto simp: ProcessQueue_def Let_def)

lemma ProcessQueue_flush:
  assumes "packetQueue st \<noteq> []" and "GetBestNextHop (neighborTable st) \<noteq> 0"
  shows "ProcessQueue st =
    (map (\<lambda>packet. Serialize (set_route (GetBestNextHop (neighborTable st)) packet))
       (packetQueue st),
     st \<lparr> neighborTable := mark_visited (GetBestNextHop (neighborTable st)) (neighborTable st),
          packetQueue := [] \<rparr>)"
  using assms by (simp add: ProcessQueue_def Let_def)

lemma mark_visited_best:
  assumes "GetBestNextHop nt = h" and "h \<noteq> 0"
  shows "\<exists>info. map_of nt h = Some info \<and>
    map_of (mark_visited h nt) = (map_of nt)(h \<mapsto> info\<lparr>isVisited := True\<rparr>)"
proof -
  from assms have "GetBestNextHop nt \<noteq> 0"
    by simp
  then have "GetBestNextHop nt \<in> fst ` set nt"
    by (rule GetBestNextHop_nonzero_in_table)
  with assms(1) have "h \<in> fst ` set nt"
    by simp
  then have "\<exists>info. map_of nt h = Some info"
    by (rule in_table_map_of)
  then obtain info where info: "map_of nt h = Some info" ..
  then have "nt_at nt h = info"
    by (rule nt_at_Some)
  then have "map_of (mark_visited h nt) = (map_of nt)(h \<mapsto> info\<lparr>isVisited := True\<rparr>)"
    by (simp only: map_of_mark_visited)
  with info show ?thesis
    by blast
qed

lemma zero_table_eq:
  "zero_table = \<lparr> neighborTable = [(0, direct_0), (7, explore_7)], packetQueue = [] \<rparr>"
  by (simp add: zero_table_def NeighborStore_def THOR_new_def nt_at_def NeighborInfo_zero_def
      direct_0_def explore_7_def)

lemma GetBestNextHop_zero_entry:
  assumes "map_of nt 0 = Some i0"
    and "\<forall>(k, info) \<in> set nt. k \<noteq> 0 \<longrightarrow> currentScore info < currentScore i0"
  shows "GetBestNextHop nt = 0"
proof (rule ccontr)
  assume nz: "GetBestNextHop nt \<noteq> 0"
  from assms(1) have mem: "(0, i0) \<in> set nt"
    by (rule map_of_SomeD)
  from GetBestNextHop_cases [of nt] nz obtain info
    where best: "(GetBestNextHop nt, info) \<in> set nt"
      and top: "\<forall>(k, i) \<in> set nt. currentScore i \<le> currentScore info"
    by blast
  from top mem have "currentScore i0 \<le> currentScore info"
    by blast
  moreover from assms(2) best nz have "currentScore info < currentScore i0"
    by blast
  ultimately show False
    by simp
qed

lemma unrouted_fresh_DATA: "unrouted (fresh_DATA d s orig q pl)"
  by (simp add: unrouted_def fresh_DATA_def)

lemma step_unrouted:
  assumes "list_all unrouted (packetQueue st)" and "\<not> is_HandleData c"
  shows "list_all unrouted (packetQueue (step st c))"
proof (cases c)
  case (Call_SendPacket d s orig q pl)
  with assms(1) show ?thesis
    by (simp add: packetQueue_SendPacket enqueue_def unrouted_fresh_DATA)
next
  case (Call_HandleData data outPacket my)
  with assms(2) show ?thesis by simp
next
  case (Call_NeighborStore k r d i v now)
  with assms(1) show ?thesis by (simp add: NeighborStore_queue)
next
  case (Call_RemoveOld now)
  with assms(1) show ?thesis by (simp add: packetQueue_RemoveOld)
next
  case Call_GetBestNextHop
  with assms(1) show ?thesis by simp
next
  case Call_ProcessQueue
  with assms(1) packetQueue_ProcessQueue [of st] show ?thesis by auto
qed

lemma run_unrouted:
  "list_all unrouted (packetQueue st) \<Longrightarrow> \<forall>c \<in> set calls. \<not> is_HandleData c \<Longrightarrow>
   list_all unrouted (packetQueue (run calls st))"
  unfolding run_def by (induction calls arbitrary: st) (simp_all add: step_unrouted)

lemma packetQueue_HandleData_exact:
  "packetQueue (snd (snd (HandleData st data outPacket my))) =
     (case Deserialize data of
        None \<Rightarrow> packetQueue st
      | Some pkt \<Rightarrow>
          if 1 < ttl (flagsAndTTL (header pkt)) \<and> destinationId (header pkt) \<noteq> my \<and>
             GetBestNextHop (neighborTable st) = 0 \<and> length (packetQueue st) < 50
          then packetQueue st @ [dec_ttl pkt]
          else packetQueue st)"
proof (cases "Deserialize data")
  case None
  then show ?thesis
    by (simp add: HandleData_undecodable)
next
  case (Some pkt)
  show ?thesis
  proof (cases "1 < ttl (flagsAndTTL (header pkt)) \<and> destinationId (header pkt) \<noteq> my")
    case False
    then have "ttl (flagsAndTTL (header pkt)) \<le> 1 \<or> destinationId (header pkt) = my"
      by (auto simp: not_less)
    from HandleData_dropped [OF Some this] Some False show ?thesis
      by simp
  next
    case True
    show ?thesis
    proof (cases "GetBestNextHop (neighborTable st) = 0")
      case hop: True
      from True hop Some have "HandleData st data outPacket my =
          ([], dec_ttl pkt, enqueue (dec_ttl pkt) st)"
        by (simp add: HandleData_no_route)
      with Some True hop show ?thesis
        by (simp add: enqueue_def)
    next
      case hop: False
      from True hop Some have "packetQueue (snd (snd (HandleData st data outPacket my))) =
          packetQueue st"
        by (simp add: HandleData_routed)
      with Some True hop show ?thesis
        by simp
    qed
  qed
qed

lemma packetQueue_ProcessQueue_exact:
  "packetQueue (snd (ProcessQueue st)) =
     (if packetQueue st = [] \<or> GetBestNextHop (neighborTable st) = 0
      then packetQueue st else [])"
  by (simp add: ProcessQueue_def Let_def)

lemma step_keeps_queued:
  "c = Call_ProcessQueue \<or> packetQueue (step st c) = packetQueue st \<or>
   (\<exists>p. packetQueue (step st c) = packetQueue st @ [p])"
proof (cases c)
  case (Call_SendPacket d s orig q pl)
  then show ?thesis
    by (simp add: packetQueue_SendPacket enqueue_def)
next
  case (Call_HandleData data outPacket my)
  then show ?thesis
    by (simp add: packetQueue_HandleData_exact split: option.splits)
next
  case (Call_NeighborStore k r d i v now)
  then show ?thesis by (simp add: NeighborStore_queue)
next
  case (Call_RemoveOld now)
  then show ?thesis by (simp add: packetQueue_RemoveOld)
next
  case Call_GetBestNextHop
  then show ?thesis by simp
next
  case Call_ProcessQueue
  then show ?thesis by simp
qed

lemma nt_sorted_mark_visited: "nt_sorted nt \<Longrightarrow> nt_sorted (mark_visited k nt)"
  by (simp add: mark_visited_def nt_sorted_assign)

lemma neighborTable_SendPacket:
  "neighborTable (snd (SendPacket st d s orig q pl)) = neighborTable st \<or>
   neighborTable (snd (SendPacket st d s orig q pl)) =
     mark_visited (GetBestNextHop (neighborTable st)) (neighborTable st)"
  by (cases "GetBestNextHop (neighborTable st) = 0")
    (simp_all add: SendPacket_no_route SendPacket_routed neighborTable_enqueue)

lemma neighborTable_HandleData:
  "neighborTable (snd (snd (HandleData st data outPacket my))) = neighborTable st \<or>
   neighborTable (snd (snd (HandleData st data outPacket my))) =
     mark_visited (GetBestNextHop (neighborTable st)) (neighborTable st)"
  by (simp add: HandleData_def Let_def neighborTable_enqueue split: option.splits)

lemma neighborTable_ProcessQueue:
  "neighborTable (snd (ProcessQueue st)) = neighborTable st \<or>
   neighborTable (snd (ProcessQueue st)) =
     mark_visited (GetBestNextHop (neighborTable st)) (neighborTable st)"
  by (simp add: ProcessQueue_def Let_def)

lemma step_sorted:
  assumes "nt_sorted (neighborTable st)"
  shows "nt_sorted (neighborTable (step st c))"
proof (cases c)
  case (Call_SendPacket d s orig q pl)
  with assms neighborTable_SendPacket [of st d s orig q pl] show ?thesis
    by (auto simp: nt_sorted_mark_visited)
next
  case (Call_HandleData data outPacket my)
  with assms neighborTable_HandleData [of st data outPacket my] show ?thesis
    by (auto simp: nt_sorted_mark_visited)
next
  case (Call_NeighborStore k r d i v now)
  with assms show ?thesis by (simp add: NeighborStore_def nt_sorted_assign)
next
  case (Call_RemoveOld now)
  with assms show ?thesis by (simp add: RemoveOld_def nt_sorted_filter)
next
  case Call_GetBestNextHop
  with assms show ?thesis by simp
next
  case Call_ProcessQueue
  with assms neighborTable_ProcessQueue [of st] show ?thesis
    by (auto simp: nt_sorted_mark_visited)
qed

lemma run_sorted: "nt_sorted (neighborTable (run calls THOR_new))"
proof -
  have "nt_sorted (neighborTable st) \<Longrightarrow> nt_sorted (neighborTable (run calls st))" for st
    unfolding run_def by (induction calls arbitrary: st) (simp_all add: step_sorted)
  then show ?thesis
    by (simp add: THOR_new_def nt_sorted_def)
qed

section \<open>Claims about the neighbor table\<close>

text \<open>
  Claim C3, as amended. \<open>NeighborStore\<close> rejects no id: for every id, 0 and
  \<open>0xFFFFFFFF\<close> included, the table afterwards maps the id to the given values with
  \<open>lastSeen\<close> set to the current time, every other key is as before, and the queue is
  untouched.
\<close>

theorem NeighborStore_upserts_every_id:
  "map_of (neighborTable (NeighborStore st nodeId r d i v now)) =
     (map_of (neighborTable st))
       (nodeId \<mapsto> \<lparr> lastSeen = now, rssi = r, hasInternetDirect = d, hasInternetIndirect = i,
          isVisited = v \<rparr>) \<and>
   map_of (neighborTable (NeighborStore st 0 r d i v now)) 0 =
     Some \<lparr> lastSeen = now, rssi = r, hasInternetDirect = d, hasInternetIndirect = i,
       isVisited = v \<rparr> \<and>
   map_of (neighborTable (NeighborStore st BROADCAST_ID r d i v now)) BROADCAST_ID =
     Some \<lparr> lastSeen = now, rssi = r, hasInternetDirect = d, hasInternetIndirect = i,
       isVisited = v \<rparr> \<and>
   packetQueue (NeighborStore st nodeId r d i v now) = packetQueue st"
  by (simp add: NeighborStore_table NeighborStore_queue)

text \<open>
  The claim as written fails on a fresh engine: storing id 0, or id \<open>0xFFFFFFFF\<close>,
  leaves a table whose only entry has that key.
\<close>

theorem NeighborStore_reserved_ids_counterexample:
  "neighborTable (NeighborStore THOR_new 0 (-65) False True False 100) = [(0, indirect_B)] \<and>
   neighborTable (NeighborStore THOR_new 0xFFFFFFFF (-65) False True False 100) =
     [(0xFFFFFFFF, indirect_B)]"
  by (simp add: NeighborStore_def THOR_new_def nt_at_def NeighborInfo_zero_def indirect_B_def)

section \<open>Claims about forwarding\<close>

text \<open>
  Claim C5. A received frame that decodes to \<open>p\<close>, with ttl at least 2, a destination
  other than \<open>MyNodeId\<close>, and a scorer result \<open>h\<close> that is not 0, makes \<open>HandleData\<close>
  return bytes that decode to a packet with the payload, type, destination, sender,
  origin, sequence and the two internet bits of \<open>p\<close>, with ttl one less than that of \<open>p\<close>,
  next hop \<open>h\<close> and the visited bit set. The frame's type is not looked at, so this holds
  for DATA frames in particular.
\<close>

theorem HandleData_forward:
  assumes "Deserialize data = Some p"
    and "1 < ttl (flagsAndTTL (header p))"
    and "destinationId (header p) \<noteq> MyNodeId"
    and "GetBestNextHop (neighborTable st) = h"
    and "h \<noteq> 0"
  shows "\<exists>q. Deserialize (fst (HandleData st data outPacket MyNodeId)) = Some q \<and>
    payload q = payload p \<and>
    type (header q) = type (header p) \<and>
    destinationId (header q) = destinationId (header p) \<and>
    senderId (header q) = senderId (header p) \<and>
    originId (header q) = originId (header p) \<and>
    sequence (header q) = sequence (header p) \<and>
    intneighbour (flagsAndTTL (header q)) = intneighbour (flagsAndTTL (header p)) \<and>
    myInternet (flagsAndTTL (header q)) = myInternet (flagsAndTTL (header p)) \<and>
    unat (ttl (flagsAndTTL (header q))) + 1 = unat (ttl (flagsAndTTL (header p))) \<and>
    nextHopId (header q) = h \<and>
    visited (flagsAndTTL (header q)) = 1"
proof -
  let ?q = "set_route h (dec_ttl p)"
  from assms have "fst (HandleData st data outPacket MyNodeId) = Serialize ?q"
    by (simp add: HandleData_routed)
  then have "Deserialize (fst (HandleData st data outPacket MyNodeId)) = Some ?q"
    by (simp add: Deserialize_Serialize)
  moreover have "unat (ttl (flagsAndTTL (header ?q))) + 1 = unat (ttl (flagsAndTTL (header p)))"
    using unat_ttl_dec [OF assms(2)] by (simp add: set_route_def dec_ttl_def)
  ultimately show ?thesis
    by (simp add: set_route_def dec_ttl_def)
qed

theorem HandleData_forward_witness:
  "Deserialize frame_S2 = Some packet_S2 \<and>
   1 < ttl (flagsAndTTL (header packet_S2)) \<and>
   destinationId (header packet_S2) \<noteq> 2 \<and>
   GetBestNextHop (neighborTable engine_B) = 3 \<and>
   (\<exists>q. Deserialize (fst (HandleData engine_B frame_S2 packet_S2 2)) = Some q \<and>
      payload q = payload packet_S2 \<and>
      unat (ttl (flagsAndTTL (header q))) + 1 = unat (ttl (flagsAndTTL (header packet_S2))) \<and>
      nextHopId (header q) = 3 \<and> visited (flagsAndTTL (header q)) = 1)"
proof -
  have a: "1 < ttl (flagsAndTTL (header packet_S2))"
    by (simp add: packet_S2_def)
  have b: "destinationId (header packet_S2) \<noteq> 2"
    by (simp add: packet_S2_def)
  have c: "(3::u32) \<noteq> 0"
    by simp
  from HandleData_forward [OF Deserialize_frame_S2 a b GetBestNextHop_engine_B c, of packet_S2]
  obtain q where "Deserialize (fst (HandleData engine_B frame_S2 packet_S2 2)) = Some q \<and>
      payload q = payload packet_S2 \<and>
      unat (ttl (flagsAndTTL (header q))) + 1 = unat (ttl (flagsAndTTL (header packet_S2))) \<and>
      nextHopId (header q) = 3 \<and> visited (flagsAndTTL (header q)) = 1"
    by blast
  with Deserialize_frame_S2 a b GetBestNextHop_engine_B show ?thesis
    by blast
qed

text \<open>
  Claim C7. A frame that decodes with ttl at most 1 makes \<open>HandleData\<close> return no bytes
  and leave the engine as it was: nothing is forwarded and nothing is queued.
\<close>

theorem HandleData_ttl_exhausted:
  assumes "Deserialize data = Some p"
    and "ttl (flagsAndTTL (header p)) \<le> 1"
  shows "fst (HandleData st data outPacket MyNodeId) = [] \<and>
    snd (snd (HandleData st data outPacket MyNodeId)) = st \<and>
    packetQueue (snd (snd (HandleData st data outPacket MyNodeId))) = packetQueue st"
  using assms by (simp add: HandleData_dropped)

theorem HandleData_ttl_exhausted_witness:
  "Deserialize frame_ttl1 = Some packet_ttl1 \<and>
   ttl (flagsAndTTL (header packet_ttl1)) \<le> 1 \<and>
   fst (HandleData engine_B frame_ttl1 packet_S2 2) = [] \<and>
   snd (snd (HandleData engine_B frame_ttl1 packet_S2 2)) = engine_B"
proof -
  have a: "ttl (flagsAndTTL (header packet_ttl1)) \<le> 1"
    by (simp add: packet_ttl1_def)
  from HandleData_ttl_exhausted [OF Deserialize_frame_ttl1 a, of engine_B packet_S2 2]
    Deserialize_frame_ttl1 a
  show ?thesis
    by simp
qed

section \<open>Claims about the pending queue\<close>

text \<open>
  Claim C8. After any sequence of calls on a new engine the queue holds at most 50
  packets; and on an engine whose queue holds 50 packets and whose scorer returns 0,
  \<open>SendPacket\<close> and \<open>HandleData\<close> return no bytes and leave the engine as it was, so the
  packet is dropped and the queue does not grow.
\<close>

theorem packetQueue_at_most_50:
  "length (packetQueue (run calls THOR_new)) \<le> 50 \<and>
   (length (packetQueue st) = 50 \<and> GetBestNextHop (neighborTable st) = 0 \<longrightarrow>
      SendPacket st d s orig q pl = ([], st) \<and>
      fst (HandleData st data outPacket my) = [] \<and>
      snd (snd (HandleData st data outPacket my)) = st)"
proof (intro conjI impI)
  show "length (packetQueue (run calls THOR_new)) \<le> 50"
    by (rule run_bounded) (simp add: THOR_new_def)
next
  assume a: "length (packetQueue st) = 50 \<and> GetBestNextHop (neighborTable st) = 0"
  then show "SendPacket st d s orig q pl = ([], st)"
    by (simp add: SendPacket_no_route enqueue_full)
  from a show "fst (HandleData st data outPacket my) = []"
    by (simp add: HandleData_def Let_def split: option.splits)
  from a show "snd (snd (HandleData st data outPacket my)) = st"
    by (simp add: HandleData_def Let_def enqueue_full split: option.splits)
qed

theorem packetQueue_at_most_50_witness:
  "length (packetQueue full_engine) = 50 \<and>
   GetBestNextHop (neighborTable full_engine) = 0 \<and>
   SendPacket full_engine 9999 1 1 51 helpme = ([], full_engine) \<and>
   fst (HandleData full_engine frame_S2 packet_S2 2) = [] \<and>
   snd (snd (HandleData full_engine frame_S2 packet_S2 2)) = full_engine \<and>
   length (packetQueue (run (replicate 51 (Call_SendPacket 9999 1 1 1 helpme)) THOR_new)) \<le> 50"
proof -
  have a: "length (packetQueue full_engine) = 50"
    by (simp add: full_engine_eq)
  have b: "GetBestNextHop (neighborTable full_engine) = 0"
    by (simp add: full_engine_eq GetBestNextHop_def)
  from packetQueue_at_most_50
    [of "replicate 51 (Call_SendPacket 9999 1 1 1 helpme)" full_engine 9999 1 1 51 helpme
      frame_S2 packet_S2 2] a b
  show ?thesis
    by simp
qed

text \<open>
  Claim C9. \<open>ProcessQueue\<close> on an empty queue, or when the scorer returns 0, returns the
  empty list and leaves the engine as it was. Otherwise, with scorer result \<open>h\<close>, it
  returns as many byte strings as packets were queued; the one at position \<open>i\<close> is the
  encoding of the packet queued at position \<open>i\<close> with next hop \<open>h\<close> and the visited bit
  set, and decodes to such a packet; the entry of \<open>h\<close> in the table becomes visited, the
  other entries stay; and the queue is empty afterwards.
\<close>

theorem ProcessQueue_batch:
  "(packetQueue st = [] \<or> GetBestNextHop (neighborTable st) = 0 \<longrightarrow>
      ProcessQueue st = ([], st)) \<and>
   (packetQueue st \<noteq> [] \<and> GetBestNextHop (neighborTable st) = h \<and> h \<noteq> 0 \<longrightarrow>
      length (fst (ProcessQueue st)) = length (packetQueue st) \<and>
      (\<forall>i < length (packetQueue st).
         fst (ProcessQueue st) ! i =
           Serialize ((packetQueue st ! i)
             \<lparr> header := (header (packetQueue st ! i))
                 \<lparr> nextHopId := h,
                   flagsAndTTL := (flagsAndTTL (header (packetQueue st ! i)))
                     \<lparr> visited := 1 \<rparr> \<rparr> \<rparr>) \<and>
         (\<exists>q. Deserialize (fst (ProcessQueue st) ! i) = Some q \<and>
            nextHopId (header q) = h \<and> visited (flagsAndTTL (header q)) = 1 \<and>
            payload q = payload (packetQueue st ! i))) \<and>
      (\<exists>info. map_of (neighborTable st) h = Some info \<and>
         map_of (neighborTable (snd (ProcessQueue st))) =
           (map_of (neighborTable st))(h \<mapsto> info\<lparr>isVisited := True\<rparr>)) \<and>
      packetQueue (snd (ProcessQueue st)) = [])"
proof (intro conjI impI)
  assume "packetQueue st = [] \<or> GetBestNextHop (neighborTable st) = 0"
  then show "ProcessQueue st = ([], st)"
    by (rule ProcessQueue_idle)
next
  assume a: "packetQueue st \<noteq> [] \<and> GetBestNextHop (neighborTable st) = h \<and> h \<noteq> 0"
  then have flush: "ProcessQueue st =
      (map (\<lambda>packet. Serialize (set_route h packet)) (packetQueue st),
       st \<lparr> neighborTable := mark_visited h (neighborTable st), packetQueue := [] \<rparr>)"
    using ProcessQueue_flush [of st] by simp
  show "length (fst (ProcessQueue st)) = length (packetQueue st)"
    by (simp add: flush)
  show "\<forall>i < length (packetQueue st).
      fst (ProcessQueue st) ! i =
        Serialize ((packetQueue st ! i)
          \<lparr> header := (header (packetQueue st ! i))
              \<lparr> nextHopId := h,
                flagsAndTTL := (flagsAndTTL (header (packetQueue st ! i)))
                  \<lparr> visited := 1 \<rparr> \<rparr> \<rparr>) \<and>
      (\<exists>q. Deserialize (fst (ProcessQueue st) ! i) = Some q \<and>
         nextHopId (header q) = h \<and> visited (flagsAndTTL (header q)) = 1 \<and>
         payload q = payload (packetQueue st ! i))"
    by (simp add: flush Deserialize_Serialize set_route_def)
  from a show "\<exists>info. map_of (neighborTable st) h = Some info \<and>
      map_of (neighborTable (snd (ProcessQueue st))) =
        (map_of (neighborTable st))(h \<mapsto> info\<lparr>isVisited := True\<rparr>)"
    using mark_visited_best [of "neighborTable st" h] by (simp add: flush)
  show "packetQueue (snd (ProcessQueue st)) = []"
    by (simp add: flush)
qed

theorem ProcessQueue_batch_witness:
  "ProcessQueue THOR_new = ([], THOR_new) \<and>
   packetQueue queued_engine \<noteq> [] \<and> GetBestNextHop (neighborTable queued_engine) = 2 \<and>
   length (fst (ProcessQueue queued_engine)) = 2 \<and>
   (\<exists>q. Deserialize (fst (ProcessQueue queued_engine) ! 0) = Some q \<and>
      nextHopId (header q) = 2 \<and> visited (flagsAndTTL (header q)) = 1 \<and> payload q = helpme) \<and>
   (\<exists>q. Deserialize (fst (ProcessQueue queued_engine) ! 1) = Some q \<and>
      nextHopId (header q) = 2 \<and> visited (flagsAndTTL (header q)) = 1 \<and> payload q = [72, 105]) \<and>
   map_of (neighborTable (snd (ProcessQueue queued_engine))) 2 =
     Some (indirect_B\<lparr>isVisited := True\<rparr>) \<and>
   packetQueue (snd (ProcessQueue queued_engine)) = []"
proof -
  have idle: "packetQueue THOR_new = [] \<or> GetBestNextHop (neighborTable THOR_new) = 0"
    by (simp add: THOR_new_def)
  have b: "packetQueue queued_engine \<noteq> []"
    by (simp add: queued_engine_eq)
  have c: "GetBestNextHop (neighborTable queued_engine) = 2"
    by (simp add: queued_engine_eq GetBestNextHop_def currentScore_def indirect_B_def)
  have busy: "packetQueue queued_engine \<noteq> [] \<and>
      GetBestNextHop (neighborTable queued_engine) = 2 \<and> (2::u32) \<noteq> 0"
    using b c by simp
  have len: "length (packetQueue queued_engine) = 2"
    by (simp add: queued_engine_eq)
  have p0: "payload (packetQueue queued_engine ! 0) = helpme"
    by (simp add: queued_engine_eq fresh_DATA_def)
  have p1: "payload (packetQueue queued_engine ! 1) = [72, 105]"
    by (simp add: queued_engine_eq fresh_DATA_def)
  have tab: "map_of (neighborTable queued_engine) 2 = Some indirect_B"
    by (simp add: queued_engine_eq)
  note first = ProcessQueue_batch [of THOR_new 2, THEN conjunct1, THEN mp, OF idle]
  note rest = ProcessQueue_batch [of queued_engine 2, THEN conjunct2, THEN mp, OF busy]
  note r1 = rest [THEN conjunct1]
  note r2 = rest [THEN conjunct2, THEN conjunct1]
  note r3 = rest [THEN conjunct2, THEN conjunct2, THEN conjunct1]
  note r4 = rest [THEN conjunct2, THEN conjunct2, THEN conjunct2]
  have i0: "0 < length (packetQueue queued_engine)" and i1: "1 < length (packetQueue queued_engine)"
    by (simp_all add: len)
  note q0 = r2 [THEN spec, of 0, THEN mp, OF i0, THEN conjunct2]
  note q1 = r2 [THEN spec, of 1, THEN mp, OF i1, THEN conjunct2]
  from r3 tab have v: "map_of (neighborTable (snd (ProcessQueue queued_engine))) 2 =
      Some (indirect_B\<lparr>isVisited := True\<rparr>)"
    by auto
  from r1 len have l: "length (fst (ProcessQueue queued_engine)) = 2"
    by simp
  from q0 p0 have o0: "\<exists>q. Deserialize (fst (ProcessQueue queued_engine) ! 0) = Some q \<and>
      nextHopId (header q) = 2 \<and> visited (flagsAndTTL (header q)) = 1 \<and> payload q = helpme"
    by simp
  from q1 p1 have o1: "\<exists>q. Deserialize (fst (ProcessQueue queued_engine) ! 1) = Some q \<and>
      nextHopId (header q) = 2 \<and> visited (flagsAndTTL (header q)) = 1 \<and> payload q = [72, 105]"
    by simp
  from first b c l o0 o1 v r4 show ?thesis
    by (intro conjI)
qed

text \<open>
  Claim C4, as amended. A packet that \<open>SendPacket\<close> queues has next hop 0 and the visited
  bit clear, and on an engine driven without \<open>HandleData\<close> every queued packet is so. A
  packet that \<open>HandleData\<close> queues is the received packet with only its ttl decremented by
  1: it keeps the next hop and the visited bit of the received frame, and every other
  header field and the payload. No call changes a packet already queued: \<open>NeighborStore\<close>
  and \<open>RemoveOld\<close> leave the queue, \<open>SendPacket\<close> and \<open>HandleData\<close> leave it or append
  that one packet, and only \<open>ProcessQueue\<close> empties it, when the queue is not empty and the
  scorer returns a hop.
\<close>

theorem queued_routing_fields:
  "((\<forall>c \<in> set calls. \<not> is_HandleData c) \<longrightarrow>
      list_all unrouted (packetQueue (run calls THOR_new))) \<and>
   packetQueue (snd (SendPacket st d s orig q pl)) =
     (if GetBestNextHop (neighborTable st) = 0 \<and> length (packetQueue st) < 50
      then packetQueue st @
        [\<lparr> header =
             \<lparr> type = DATA,
               flagsAndTTL = \<lparr> ttl = 15, intneighbour = 0, visited = 0, myInternet = 0 \<rparr>,
               destinationId = d, senderId = s, originId = orig, nextHopId = 0,
               sequence = q \<rparr>,
           payload = pl \<rparr>]
      else packetQueue st) \<and>
   packetQueue (snd (snd (HandleData st data outPacket my))) =
     (case Deserialize data of
        None \<Rightarrow> packetQueue st
      | Some f \<Rightarrow>
          if 1 < ttl (flagsAndTTL (header f)) \<and> destinationId (header f) \<noteq> my \<and>
             GetBestNextHop (neighborTable st) = 0 \<and> length (packetQueue st) < 50
          then packetQueue st @
            [f \<lparr> header := (header f)
                  \<lparr> flagsAndTTL := (flagsAndTTL (header f))
                       \<lparr> ttl := ttl (flagsAndTTL (header f)) - 1 \<rparr> \<rparr> \<rparr>]
          else packetQueue st) \<and>
   (Deserialize data = Some pkt \<and> 1 < ttl (flagsAndTTL (header pkt)) \<and>
    destinationId (header pkt) \<noteq> my \<and> GetBestNextHop (neighborTable st) = 0 \<and>
    length (packetQueue st) < 50 \<longrightarrow>
      (\<exists>p. packetQueue (snd (snd (HandleData st data outPacket my))) = packetQueue st @ [p] \<and>
         nextHopId (header p) = nextHopId (header pkt) \<and>
         visited (flagsAndTTL (header p)) = visited (flagsAndTTL (header pkt)) \<and>
         unat (ttl (flagsAndTTL (header p))) + 1 = unat (ttl (flagsAndTTL (header pkt))) \<and>
         intneighbour (flagsAndTTL (header p)) = intneighbour (flagsAndTTL (header pkt)) \<and>
         myInternet (flagsAndTTL (header p)) = myInternet (flagsAndTTL (header pkt)) \<and>
         type (header p) = type (header pkt) \<and>
         destinationId (header p) = destinationId (header pkt) \<and>
         senderId (header p) = senderId (header pkt) \<and>
         originId (header p) = originId (header pkt) \<and>
         sequence (header p) = sequence (header pkt) \<and>
         payload p = payload pkt)) \<and>
   packetQueue (NeighborStore st k r di ii v now) = packetQueue st \<and>
   packetQueue (RemoveOld st now) = packetQueue st \<and>
   packetQueue (snd (ProcessQueue st)) =
     (if packetQueue st = [] \<or> GetBestNextHop (neighborTable st) = 0
      then packetQueue st else []) \<and>
   (c = Call_ProcessQueue \<or> packetQueue (step st c) = packetQueue st \<or>
      (\<exists>p. packetQueue (step st c) = packetQueue st @ [p]))"
proof (intro conjI impI)
  assume "\<forall>c \<in> set calls. \<not> is_HandleData c"
  then show "list_all unrouted (packetQueue (run calls THOR_new))"
    by (intro run_unrouted) (simp_all add: THOR_new_def)
next
  show "packetQueue (snd (SendPacket st d s orig q pl)) =
     (if GetBestNextHop (neighborTable st) = 0 \<and> length (packetQueue st) < 50
      then packetQueue st @
        [\<lparr> header =
             \<lparr> type = DATA,
               flagsAndTTL = \<lparr> ttl = 15, intneighbour = 0, visited = 0, myInternet = 0 \<rparr>,
               destinationId = d, senderId = s, originId = orig, nextHopId = 0,
               sequence = q \<rparr>,
           payload = pl \<rparr>]
      else packetQueue st)"
    by (simp add: packetQueue_SendPacket enqueue_def fresh_DATA_def)
next
  show "packetQueue (snd (snd (HandleData st data outPacket my))) =
     (case Deserialize data of
        None \<Rightarrow> packetQueue st
      | Some f \<Rightarrow>
          if 1 < ttl (flagsAndTTL (header f)) \<and> destinationId (header f) \<noteq> my \<and>
             GetBestNextHop (neighborTable st) = 0 \<and> length (packetQueue st) < 50
          then packetQueue st @
            [f \<lparr> header := (header f)
                  \<lparr> flagsAndTTL := (flagsAndTTL (header f))
                       \<lparr> ttl := ttl (flagsAndTTL (header f)) - 1 \<rparr> \<rparr> \<rparr>]
          else packetQueue st)"
    by (simp only: packetQueue_HandleData_exact dec_ttl_def)
next
  assume a: "Deserialize data = Some pkt \<and> 1 < ttl (flagsAndTTL (header pkt)) \<and>
    destinationId (header pkt) \<noteq> my \<and> GetBestNextHop (neighborTable st) = 0 \<and>
    length (packetQueue st) < 50"
  then have q: "packetQueue (snd (snd (HandleData st data outPacket my))) =
      packetQueue st @ [dec_ttl pkt]"
    by (simp add: packetQueue_HandleData_exact)
  from a have "unat (ttl (flagsAndTTL (header (dec_ttl pkt)))) + 1 =
      unat (ttl (flagsAndTTL (header pkt)))"
    using unat_ttl_dec [of "ttl (flagsAndTTL (header pkt))"] by (simp add: dec_ttl_def)
  with q show "\<exists>p. packetQueue (snd (snd (HandleData st data outPacket my))) = packetQueue st @ [p] \<and>
         nextHopId (header p) = nextHopId (header pkt) \<and>
         visited (flagsAndTTL (header p)) = visited (flagsAndTTL (header pkt)) \<and>
         unat (ttl (flagsAndTTL (header p))) + 1 = unat (ttl (flagsAndTTL (header pkt))) \<and>
         intneighbour (flagsAndTTL (header p)) = intneighbour (flagsAndTTL (header pkt)) \<and>
         myInternet (flagsAndTTL (header p)) = myInternet (flagsAndTTL (header pkt)) \<and>
         type (header p) = type (header pkt) \<and>
         destinationId (header p) = destinationId (header pkt) \<and>
         senderId (header p) = senderId (header pkt) \<and>
         originId (header p) = originId (header pkt) \<and>
         sequence (header p) = sequence (header pkt) \<and>
         payload p = payload pkt"
    by (simp add: dec_ttl_def)
next
  show "packetQueue (NeighborStore st k r di ii v now) = packetQueue st"
    by (rule NeighborStore_queue)
next
  show "packetQueue (RemoveOld st now) = packetQueue st"
    by (rule packetQueue_RemoveOld)
next
  show "packetQueue (snd (ProcessQueue st)) =
     (if packetQueue st = [] \<or> GetBestNextHop (neighborTable st) = 0
      then packetQueue st else [])"
    by (rule packetQueue_ProcessQueue_exact)
next
  show "c = Call_ProcessQueue \<or> packetQueue (step st c) = packetQueue st \<or>
      (\<exists>p. packetQueue (step st c) = packetQueue st @ [p])"
    by (rule step_keeps_queued)
qed

theorem queued_routing_fields_witness:
  "\<not> is_HandleData (Call_SendPacket 9999 1 1 1 helpme) \<and>
   list_all unrouted (packetQueue (run [Call_SendPacket 9999 1 1 1 helpme] THOR_new)) \<and>
   GetBestNextHop (neighborTable THOR_new) = 0 \<and> length (packetQueue THOR_new) < 50 \<and>
   packetQueue (snd (SendPacket THOR_new 9999 1 1 1 helpme)) = [fresh_DATA 9999 1 1 1 helpme] \<and>
   Deserialize frame_S2 = Some packet_S2 \<and>
   1 < ttl (flagsAndTTL (header packet_S2)) \<and> destinationId (header packet_S2) \<noteq> 2 \<and>
   packetQueue (snd (snd (HandleData THOR_new frame_S2 packet_S2 2))) = [packet_S2_queued] \<and>
   (\<exists>p. packetQueue (snd (snd (HandleData THOR_new frame_S2 packet_S2 2))) =
        packetQueue THOR_new @ [p] \<and>
      nextHopId (header p) = nextHopId (header packet_S2) \<and>
      visited (flagsAndTTL (header p)) = visited (flagsAndTTL (header packet_S2)) \<and>
      unat (ttl (flagsAndTTL (header p))) + 1 = unat (ttl (flagsAndTTL (header packet_S2))) \<and>
      payload p = payload packet_S2)"
proof -
  have a: "\<forall>c \<in> set [Call_SendPacket 9999 1 1 1 helpme]. \<not> is_HandleData c"
    by simp
  have b: "GetBestNextHop (neighborTable THOR_new) = 0" "length (packetQueue THOR_new) < 50"
    "packetQueue THOR_new = []"
    by (simp_all add: THOR_new_def GetBestNextHop_def)
  have d: "1 < ttl (flagsAndTTL (header packet_S2))" "destinationId (header packet_S2) \<noteq> 2"
    by (simp_all add: packet_S2_def)
  have c: "Deserialize frame_S2 = Some packet_S2 \<and> 1 < ttl (flagsAndTTL (header packet_S2)) \<and>
    destinationId (header packet_S2) \<noteq> 2 \<and> GetBestNextHop (neighborTable THOR_new) = 0 \<and>
    length (packetQueue THOR_new) < 50"
    using b d Deserialize_frame_S2 by simp
  note t = queued_routing_fields [of "[Call_SendPacket 9999 1 1 1 helpme]" THOR_new 9999 1 1 1
      helpme frame_S2 packet_S2 2 packet_S2 7 0 False False False 0 Call_GetBestNextHop]
  note t1 = t [THEN conjunct1, THEN mp, OF a]
  note t2 = t [THEN conjunct2, THEN conjunct1]
  note t3 = t [THEN conjunct2, THEN conjunct2, THEN conjunct1]
  note t4 = t [THEN conjunct2, THEN conjunct2, THEN conjunct2, THEN conjunct1, THEN mp, OF c]
  have n: "\<not> is_HandleData (Call_SendPacket 9999 1 1 1 helpme)"
    by simp
  from t2 b have s: "packetQueue (snd (SendPacket THOR_new 9999 1 1 1 helpme)) =
      [fresh_DATA 9999 1 1 1 helpme]"
    by (simp add: fresh_DATA_def)
  from t3 b d Deserialize_frame_S2
  have h: "packetQueue (snd (snd (HandleData THOR_new frame_S2 packet_S2 2))) = [packet_S2_queued]"
    by (simp add: packet_S2_def packet_S2_queued_def)
  from t4 have e: "\<exists>p. packetQueue (snd (snd (HandleData THOR_new frame_S2 packet_S2 2))) =
        packetQueue THOR_new @ [p] \<and>
      nextHopId (header p) = nextHopId (header packet_S2) \<and>
      visited (flagsAndTTL (header p)) = visited (flagsAndTTL (header packet_S2)) \<and>
      unat (ttl (flagsAndTTL (header p))) + 1 = unat (ttl (flagsAndTTL (header packet_S2))) \<and>
      payload p = payload packet_S2"
    by blast
  from n t1 b(1) b(2) s Deserialize_frame_S2 d(1) d(2) h e show ?thesis
    by (intro conjI)
qed

text \<open>
  The claim as written fails when node 2, with no neighbor, receives the frame that node 1
  addressed to it: the packet it queues has next hop 2 and the visited bit set.
\<close>

theorem HandleData_queues_routed_counterexample:
  "GetBestNextHop (neighborTable THOR_new) = 0 \<and>
   map (\<lambda>p. (nextHopId (header p), visited (flagsAndTTL (header p))))
     (packetQueue (snd (snd (HandleData THOR_new frame_S2 packet_S2 2)))) = [(2, 1)]"
proof -
  have hop: "GetBestNextHop (neighborTable THOR_new) = 0"
    by (simp add: THOR_new_def GetBestNextHop_def)
  have "HandleData THOR_new frame_S2 packet_S2 2 =
      ([], dec_ttl packet_S2, enqueue (dec_ttl packet_S2) THOR_new)"
    by (rule HandleData_no_route [OF Deserialize_frame_S2 _ _ hop])
      (simp_all add: packet_S2_def)
  then show ?thesis
    using hop by (simp add: enqueue_def THOR_new_def dec_ttl_def packet_S2_def)
qed

section \<open>Node id 0 in the table\<close>

text \<open>
  Claim C10. When the table holds an entry for node id 0 whose score is strictly above
  that of every other entry, \<open>GetBestNextHop\<close> returns 0, the value it returns when there
  is no route (as on the empty table). \<open>SendPacket\<close> then takes its no-route path: it returns no bytes, leaves the
  table alone and appends the packet, with next hop 0 and the visited bit clear, to the
  queue (when the queue holds fewer than 50 packets; a full queue is left as it is).
\<close>

theorem zero_id_is_no_route:
  assumes "map_of (neighborTable st) 0 = Some i0"
    and "\<forall>(k, info) \<in> set (neighborTable st). k \<noteq> 0 \<longrightarrow> currentScore info < currentScore i0"
  shows "GetBestNextHop (neighborTable st) = 0 \<and>
    fst (SendPacket st d s orig q pl) = [] \<and>
    neighborTable (snd (SendPacket st d s orig q pl)) = neighborTable st \<and>
    packetQueue (snd (SendPacket st d s orig q pl)) =
      (if length (packetQueue st) < 50
       then packetQueue st @
         [\<lparr> header =
              \<lparr> type = DATA,
                flagsAndTTL = \<lparr> ttl = 15, intneighbour = 0, visited = 0, myInternet = 0 \<rparr>,
                destinationId = d, senderId = s, originId = orig, nextHopId = 0,
                sequence = q \<rparr>,
            payload = pl \<rparr>]
       else packetQueue st) \<and>
    GetBestNextHop [] = 0"
proof -
  from assms have hop: "GetBestNextHop (neighborTable st) = 0"
    by (rule GetBestNextHop_zero_entry)
  have none: "GetBestNextHop [] = 0"
    by (simp add: GetBestNextHop_def)
  from hop none show ?thesis
    by (simp add: SendPacket_no_route enqueue_def fresh_DATA_def DATA_def)
qed

theorem zero_id_is_no_route_witness:
  "map_of (neighborTable zero_table) 0 = Some direct_0 \<and>
   currentScore direct_0 = 350 \<and> currentScore explore_7 = 150 \<and>
   GetBestNextHop (neighborTable zero_table) = 0 \<and>
   fst (SendPacket zero_table 9999 1 1 1 helpme) = [] \<and>
   length (packetQueue (snd (SendPacket zero_table 9999 1 1 1 helpme))) = 1"
proof -
  have a: "map_of (neighborTable zero_table) 0 = Some direct_0"
    by (simp add: zero_table_eq)
  have s0: "currentScore direct_0 = 350"
    by (simp add: currentScore_def direct_0_def)
  have s7: "currentScore explore_7 = 150"
    by (simp add: currentScore_def explore_7_def)
  have b: "\<forall>(k, info) \<in> set (neighborTable zero_table).
      k \<noteq> 0 \<longrightarrow> currentScore info < currentScore direct_0"
    by (simp add: zero_table_eq s0 s7)
  have c: "length (packetQueue zero_table) < 50"
    by (simp add: zero_table_eq)
  note r = zero_id_is_no_route [OF a b, of 9999 1 1 1 helpme]
  from r [THEN conjunct2, THEN conjunct2, THEN conjunct2] c
  have "length (packetQueue (snd (SendPacket zero_table 9999 1 1 1 helpme))) = 1"
    by (simp add: zero_table_eq)
  with a s0 s7 r [THEN conjunct1] r [THEN conjunct2, THEN conjunct1] show ?thesis
    by (intro conjI)
qed

end
